theory Spec2Isabelle
  imports Complex_Main "HOL-Library.Signed_Division" "HOL-Library.Multiset"
begin

text \<open>
  A model of \<^verbatim>\<open>mpi_trap.c\<close>: \<^verbatim>\<open>main\<close> fixes the interval \<open>[a, b]\<close>, the number \<open>n\<close> of
  subdivisions and the number of threads, starts the threads on \<^verbatim>\<open>mutex_Trap\<close> and
  prints \<^verbatim>\<open>GLOBAL_MUTEX_SUM\<close> after joining them. Each thread sums the integrand over
  its block of sample indices, scales the sum by the step \<open>h\<close> and adds it to the
  shared sum under the mutex.
\<close>

section \<open>Arithmetic of the C program\<close>

subsection \<open>Values of type double\<close>

text \<open>
  A \<^verbatim>\<open>double\<close> is modelled as a real number or one of the three special results of
  IEEE 754 arithmetic. Finite results are exact: the model has no rounding and no
  overflow, so it is the program under exact real arithmetic. The special values are
  kept because the program divides by \<^verbatim>\<open>n\<close> without a check, and in C the quotient
  \<^verbatim>\<open>x / 0.0\<close> is an infinity or a NaN, never \<open>0\<close>. Zero has no sign in the model: a
  zero divisor stands for \<^verbatim>\<open>+0.0\<close>, which is what the conversion of the integer
  \<^verbatim>\<open>0\<close> gives, and that conversion is the only way the program can divide by zero.
\<close>

datatype double = Fin real | PInf | NInf | NaN

definition signed_inf :: "real \<Rightarrow> double" where
  "signed_inf s = (if 0 < s then PInf else if s < 0 then NInf else NaN)"

fun dsgn :: "double \<Rightarrow> real" where
  "dsgn (Fin x) = sgn x"
| "dsgn PInf = 1"
| "dsgn NInf = - 1"
| "dsgn NaN = 0"

fun dneg :: "double \<Rightarrow> double" where
  "dneg (Fin x) = Fin (- x)"
| "dneg PInf = NInf"
| "dneg NInf = PInf"
| "dneg NaN = NaN"

fun dadd :: "double \<Rightarrow> double \<Rightarrow> double" where
  "dadd NaN y = NaN"
| "dadd x NaN = NaN"
| "dadd (Fin x) (Fin y) = Fin (x + y)"
| "dadd PInf NInf = NaN"
| "dadd NInf PInf = NaN"
| "dadd PInf y = PInf"
| "dadd x PInf = PInf"
| "dadd NInf y = NInf"
| "dadd x NInf = NInf"

definition dsub :: "double \<Rightarrow> double \<Rightarrow> double" where
  "dsub x y = dadd x (dneg y)"

fun dmul :: "double \<Rightarrow> double \<Rightarrow> double" where
  "dmul NaN y = NaN"
| "dmul x NaN = NaN"
| "dmul (Fin x) (Fin y) = Fin (x * y)"
| "dmul x y = signed_inf (dsgn x * dsgn y)"

fun ddiv :: "double \<Rightarrow> double \<Rightarrow> double" where
  "ddiv NaN y = NaN"
| "ddiv x NaN = NaN"
| "ddiv (Fin x) (Fin y) = (if y = 0 then signed_inf (sgn x) else Fin (x / y))"
| "ddiv (Fin x) y = Fin 0"
| "ddiv x (Fin y) = signed_inf (dsgn x * (if y < 0 then - 1 else 1))"
| "ddiv x y = NaN"

definition double_of_int :: "int \<Rightarrow> double" where
  "double_of_int i = Fin (of_int i)"

subsection \<open>Integers\<close>

text \<open>
  \<^verbatim>\<open>n\<close> and \<^verbatim>\<open>thread_count\<close> are \<^verbatim>\<open>int\<close> (32 bits), \<^verbatim>\<open>thread_rank\<close> is \<^verbatim>\<open>long\<close> and
  the block bounds are \<^verbatim>\<open>long long\<close> (64 bits where POSIX threads run). They are
  modelled as mathematical integers; \<open>block_product_fits\<close> below shows that the
  products of the macros stay inside 64 bits for every 32-bit \<^verbatim>\<open>n\<close> and
  \<^verbatim>\<open>thread_count\<close>, so nothing wraps. C division truncates towards zero, which is
  \<open>sdiv\<close>. The cast \<^verbatim>\<open>(int)thread_rank\<close> keeps the low 32 bits.
\<close>

definition INT_MAX :: int where
  "INT_MAX = 2147483647"

definition int_of_long :: "int \<Rightarrow> int" where
  "int_of_long k = signed_take_bit 31 k"

text \<open>\<^verbatim>\<open>#define BLOCK_LOW(id,p,n) ((id)*(n)/(p))\<close>\<close>

definition BLOCK_LOW :: "int \<Rightarrow> int \<Rightarrow> int \<Rightarrow> int" where
  "BLOCK_LOW idx p n = (idx * n) sdiv p"

text \<open>\<^verbatim>\<open>#define BLOCK_HIGH(id,p,n) (BLOCK_LOW((id)+1,p,n)-1)\<close>\<close>

definition BLOCK_HIGH :: "int \<Rightarrow> int \<Rightarrow> int \<Rightarrow> int" where
  "BLOCK_HIGH idx p n = BLOCK_LOW (idx + 1) p n - 1"

section \<open>The program\<close>

text \<open>
  The global variables. The fields \<open>g_n\<close>, \<open>g_a\<close>, \<open>g_b\<close>, \<open>g_h\<close> are the globals
  \<^verbatim>\<open>n\<close>, \<^verbatim>\<open>a\<close>, \<^verbatim>\<open>b\<close>, \<^verbatim>\<open>h\<close>.
\<close>

record globals =
  g_n :: int
  g_a :: double
  g_b :: double
  g_h :: double
  thread_count :: int
  GLOBAL_MUTEX_SUM :: double

text \<open>\<^verbatim>\<open>double f(double x) { return x*x - 4*x + 8; }\<close>\<close>

definition f :: "double \<Rightarrow> double" where
  "f x = dadd (dsub (dmul x x) (dmul (Fin 4) x)) (Fin 8)"

text \<open>
  The loop \<^verbatim>\<open>for (i = local_a; i <= local_b; i++) local_int += f(a+(i*h));\<close>
  of \<^verbatim>\<open>mutex_Trap\<close>, with \<open>i\<close> the loop counter and \<open>local_int\<close> the running sum.
\<close>

function trap_loop :: "globals \<Rightarrow> int \<Rightarrow> int \<Rightarrow> double \<Rightarrow> double" where
  "trap_loop g i local_b local_int =
     (if i \<le> local_b
      then trap_loop g (i + 1) local_b
             (dadd local_int (f (dadd (g_a g) (dmul (double_of_int i) (g_h g)))))
      else local_int)"
  by pat_completeness auto
termination
  by (relation "measure (\<lambda>(g, i, local_b, local_int). nat (local_b + 1 - i))") auto

declare trap_loop.simps [simp del]

text \<open>The sample indices the loop visits, in order.\<close>

function loop_indices :: "int \<Rightarrow> int \<Rightarrow> int list" where
  "loop_indices i local_b = (if i \<le> local_b then i # loop_indices (i + 1) local_b else [])"
  by pat_completeness auto
termination
  by (relation "measure (\<lambda>(i, local_b). nat (local_b + 1 - i))") auto

declare loop_indices.simps [simp del]

text \<open>
  The body of \<^verbatim>\<open>mutex_Trap\<close> up to the lock: the value of \<^verbatim>\<open>local_int\<close> that the
  thread is about to add to the shared sum.
\<close>

definition endpoint_term :: "globals \<Rightarrow> double" where
  "endpoint_term g = ddiv (dadd (f (g_a g)) (f (g_b g))) (Fin 2)"

definition local_int_of :: "globals \<Rightarrow> int \<Rightarrow> double" where
  "local_int_of g thread_rank =
     (let local_int = Fin 0;
          especial_case = int_of_long thread_rank;
          local_a = BLOCK_LOW thread_rank (thread_count g) (g_n g);
          local_b = BLOCK_HIGH thread_rank (thread_count g) (g_n g);
          local_int = (if especial_case = 1 then dadd local_int (endpoint_term g)
                       else local_int);
          local_int = trap_loop g local_a local_b local_int;
          local_int = dmul local_int (g_h g)
      in local_int)"

text \<open>
  \<^verbatim>\<open>mutex_Trap\<close>: the thread computes its local value and adds it to
  \<^verbatim>\<open>GLOBAL_MUTEX_SUM\<close> inside the critical section.
\<close>

definition mutex_Trap :: "globals \<Rightarrow> int \<Rightarrow> globals" where
  "mutex_Trap g thread_rank =
     g\<lparr>GLOBAL_MUTEX_SUM := dadd (GLOBAL_MUTEX_SUM g) (local_int_of g thread_rank)\<rparr>"

text \<open>
  The start of \<^verbatim>\<open>main\<close>, with the four hardwired constants as parameters.
\<close>

definition main_setup :: "int \<Rightarrow> double \<Rightarrow> double \<Rightarrow> int \<Rightarrow> globals" where
  "main_setup n a b p =
     \<lparr>g_n = n, g_a = a, g_b = b, g_h = ddiv (dsub b a) (double_of_int n),
      thread_count = p, GLOBAL_MUTEX_SUM = Fin 0\<rparr>"

text \<open>
  The threads run concurrently. A thread reads only globals that no thread writes
  while the threads run, except in its one locked addition, so an execution is
  determined by the order in which the threads pass the critical section. A schedule
  is that order: a list holding every rank \<open>0, \<dots>, thread_count - 1\<close> once.
\<close>

definition schedule :: "int \<Rightarrow> int list \<Rightarrow> bool" where
  "schedule p s = (mset s = mset [0..p - 1])"

definition run_threads :: "globals \<Rightarrow> int list \<Rightarrow> globals" where
  "run_threads g s = fold (\<lambda>thread_rank g'. mutex_Trap g' thread_rank) s g"

text \<open>The value \<^verbatim>\<open>main\<close> prints after the joins, for given constants and schedule.\<close>

definition estimate :: "int \<Rightarrow> double \<Rightarrow> double \<Rightarrow> int \<Rightarrow> int list \<Rightarrow> double" where
  "estimate n a b p s = GLOBAL_MUTEX_SUM (run_threads (main_setup n a b p) s)"

text \<open>\<^verbatim>\<open>main\<close> as written: \<^verbatim>\<open>n = 10000000; a = 1.0; b = 5.0; thread_count = 2\<close>.\<close>

definition main :: "int list \<Rightarrow> double" where
  "main s = estimate 10000000 (Fin 1) (Fin 5) 2 s"

section \<open>Stating the claims\<close>

text \<open>The integrand on the reals: what \<open>f\<close> computes on a finite argument.\<close>

definition f_real :: "real \<Rightarrow> real" where
  "f_real x = x * x - 4 * x + 8"

text \<open>
  The sum of the samples \<open>f (a + i * h)\<close> over a set of indices, and the endpoint term
  \<open>(f a + f b) / 2\<close> over the reals.
\<close>

definition samples :: "real \<Rightarrow> real \<Rightarrow> int set \<Rightarrow> real" where
  "samples a h I = (\<Sum>i\<in>I. f_real (a + of_int i * h))"

definition endpoint_real :: "real \<Rightarrow> real \<Rightarrow> real" where
  "endpoint_real a b = (f_real a + f_real b) / 2"

text \<open>
  The threads among \<open>0, \<dots>, p - 1\<close> for which the test \<^verbatim>\<open>especial_case == 1\<close> of
  \<^verbatim>\<open>mutex_Trap\<close> holds: those that add the endpoint term to their local sum.
\<close>

definition endpoint_workers :: "int \<Rightarrow> int list" where
  "endpoint_workers p = filter (\<lambda>thread_rank. int_of_long thread_rank = 1) [0..p - 1]"

text \<open>An antiderivative of the integrand.\<close>

definition antiderivative :: "real \<Rightarrow> real" where
  "antiderivative x = x ^ 3 / 3 - 2 * x ^ 2 + 8 * x"

text \<open>
  The trapezoidal rule with \<open>n\<close> trapezoids, as the header of the source file names it:
  half weight for the two endpoints, full weight for the interior points
  \<open>1, \<dots>, n - 1\<close>.
\<close>

definition trapezoid_rule :: "real \<Rightarrow> real \<Rightarrow> int \<Rightarrow> real" where
  "trapezoid_rule a b n =
     (b - a) / of_int n * (endpoint_real a b + samples a ((b - a) / of_int n) {1..n - 1})"

text \<open>\<open>close_to x c tol\<close>: the double \<open>x\<close> is finite and at most \<open>tol\<close> away from \<open>c\<close>.\<close>

fun close_to :: "double \<Rightarrow> real \<Rightarrow> real \<Rightarrow> bool" where
  "close_to (Fin x) c tol = (\<bar>x - c\<bar> \<le> tol)"
| "close_to PInf c tol = False"
| "close_to NInf c tol = False"
| "close_to NaN c tol = False"

section \<open>Block bounds\<close>

text \<open>
  For the values the program passes to the macros, truncating division is the floor,
  the lower bounds grow with the rank, and no product leaves the range of
  \<^verbatim>\<open>long\<close>.
\<close>

lemma sdiv_nonneg_eq_div: "0 \<le> k \<Longrightarrow> 0 < l \<Longrightarrow> k sdiv l = k div (l::int)"
  by (simp add: signed_divide_int_def sgn_if)

lemma BLOCK_LOW_div:
  assumes "0 \<le> idx" "0 \<le> n" "1 \<le> p"
  shows "BLOCK_LOW idx p n = (idx * n) div p"
  using assms by (simp add: BLOCK_LOW_def sdiv_nonneg_eq_div)

lemma BLOCK_LOW_zero: "BLOCK_LOW 0 p n = 0"
  by (simp add: BLOCK_LOW_def)

lemma BLOCK_LOW_top: "1 \<le> p \<Longrightarrow> 0 \<le> n \<Longrightarrow> BLOCK_LOW p p n = n"
  by (simp add: BLOCK_LOW_div)

lemma BLOCK_LOW_mono:
  assumes "0 \<le> i" "i \<le> j" "0 \<le> n" "1 \<le> p"
  shows "BLOCK_LOW i p n \<le> BLOCK_LOW j p n"
proof -
  have "i * n \<le> j * n" using assms by (simp add: mult_right_mono)
  then have "(i * n) div p \<le> (j * n) div p" using assms by (simp add: zdiv_mono1)
  then show ?thesis using assms by (simp add: BLOCK_LOW_div)
qed

lemma BLOCK_LOW_nonneg:
  assumes "0 \<le> i" "0 \<le> n" "1 \<le> p"
  shows "0 \<le> BLOCK_LOW i p n"
  using BLOCK_LOW_mono [of 0 i n p] assms by (simp add: BLOCK_LOW_zero)

lemma block_range: "{BLOCK_LOW i p n..BLOCK_HIGH i p n} = {BLOCK_LOW i p n..<BLOCK_LOW (i + 1) p n}"
  by (auto simp: BLOCK_HIGH_def)

lemma block_size_bounds:
  assumes "0 \<le> i" "0 \<le> n" "1 \<le> p"
  shows "n div p \<le> BLOCK_LOW (i + 1) p n - BLOCK_LOW i p n"
    and "BLOCK_LOW (i + 1) p n - BLOCK_LOW i p n \<le> n div p + 1"
proof -
  define x where "x = i * n"
  have x0: "0 \<le> x" using assms by (simp add: x_def)
  have split: "(x + n) div p = x div p + (x mod p + n) div p"
  proof -
    have e: "x + n = p * (x div p) + (x mod p + n)" by simp
    have "p \<noteq> 0" using assms by simp
    then have "(p * (x div p) + (x mod p + n)) div p = x div p + (x mod p + n) div p"
      by (rule div_mult_self4)
    then show ?thesis by (subst e)
  qed
  have m0: "0 \<le> x mod p" and m1: "x mod p < p" using assms by simp_all
  have lo: "n div p \<le> (x mod p + n) div p"
    using m0 assms by (intro zdiv_mono1) simp_all
  have "(x mod p + n) div p \<le> (p + n) div p"
    using m1 assms by (intro zdiv_mono1) linarith+
  also have "\<dots> = n div p + 1" using assms by simp
  finally have hi: "(x mod p + n) div p \<le> n div p + 1" .
  have lowi: "BLOCK_LOW i p n = x div p" using assms by (simp add: BLOCK_LOW_div x_def)
  have lowi1: "BLOCK_LOW (i + 1) p n = (x + n) div p"
    using assms by (simp add: BLOCK_LOW_div x_def algebra_simps)
  show "n div p \<le> BLOCK_LOW (i + 1) p n - BLOCK_LOW i p n"
    using lo split lowi lowi1 by simp
  show "BLOCK_LOW (i + 1) p n - BLOCK_LOW i p n \<le> n div p + 1"
    using hi split lowi lowi1 by simp
qed

lemma blocks_union_upto:
  assumes "0 \<le> n" "1 \<le> p"
  shows "(\<Union>idx\<in>{0..<int k}. {BLOCK_LOW idx p n..BLOCK_HIGH idx p n}) = {0..<BLOCK_LOW (int k) p n}"
proof (induction k)
  case 0
  show ?case by (simp add: BLOCK_LOW_zero)
next
  case (Suc k)
  have ivl: "{0..<int (Suc k)} = insert (int k) {0..<int k}" by auto
  have a: "0 \<le> BLOCK_LOW (int k) p n" using assms by (simp add: BLOCK_LOW_nonneg)
  have b: "BLOCK_LOW (int k) p n \<le> BLOCK_LOW (int k + 1) p n"
    using assms by (simp add: BLOCK_LOW_mono)
  have "(\<Union>idx\<in>{0..<int (Suc k)}. {BLOCK_LOW idx p n..BLOCK_HIGH idx p n})
      = {BLOCK_LOW (int k) p n..<BLOCK_LOW (int k + 1) p n} \<union> {0..<BLOCK_LOW (int k) p n}"
    using Suc.IH by (simp only: ivl UN_insert block_range)
  also have "\<dots> = {0..<BLOCK_LOW (int k + 1) p n}"
    using a b by auto
  finally show ?case by (simp add: add.commute)
qed

lemma blocks_union:
  assumes "0 \<le> n" "1 \<le> p"
  shows "(\<Union>idx\<in>{0..<p}. {BLOCK_LOW idx p n..BLOCK_HIGH idx p n}) = {0..<n}"
  using blocks_union_upto [OF assms, of "nat p"] assms by (simp add: BLOCK_LOW_top)

lemma blocks_disjoint:
  assumes "0 \<le> i" "i < j" "0 \<le> n" "1 \<le> p"
  shows "{BLOCK_LOW i p n..BLOCK_HIGH i p n} \<inter> {BLOCK_LOW j p n..BLOCK_HIGH j p n} = {}"
proof -
  have "BLOCK_LOW (i + 1) p n \<le> BLOCK_LOW j p n"
    using assms by (intro BLOCK_LOW_mono) simp_all
  then show ?thesis by (auto simp: BLOCK_HIGH_def)
qed

lemma block_product_fits:
  assumes "0 \<le> idx" "idx < p" "p \<le> INT_MAX" "0 \<le> n" "n \<le> INT_MAX"
  shows "0 \<le> (idx + 1) * n" and "(idx + 1) * n < 2 ^ 63"
proof -
  show "0 \<le> (idx + 1) * n" using assms by simp
  have "(idx + 1) * n \<le> INT_MAX * INT_MAX"
    using assms by (intro mult_mono) simp_all
  also have "\<dots> < 2 ^ 63" by (simp add: INT_MAX_def)
  finally show "(idx + 1) * n < 2 ^ 63" .
qed

section \<open>Addition of doubles\<close>

text \<open>
  Without rounding, addition of doubles is commutative and associative, also on the
  special values: the sum of a list is NaN when it holds a NaN or both infinities, the
  infinity it holds otherwise, and else the sum of the reals.
\<close>

lemma dadd_commute: "dadd x y = dadd y x"
  by (cases x; cases y) simp_all

lemma dadd_assoc: "dadd (dadd x y) z = dadd x (dadd y z)"
  by (cases x; cases y; cases z) simp_all

lemma dadd_zero_right: "dadd x (Fin 0) = x"
  by (cases x) simp_all


lemma f_Fin: "f (Fin x) = Fin (f_real x)"
  by (simp add: f_def f_real_def dsub_def)

section \<open>One worker\<close>

text \<open>
  The loop adds the samples of the indices \<open>local_a, \<dots>, local_b\<close> in increasing order and
  reads only \<^verbatim>\<open>a\<close> and \<^verbatim>\<open>h\<close>. On finite \<^verbatim>\<open>a\<close>, \<^verbatim>\<open>b\<close> and \<^verbatim>\<open>h\<close> the value a thread
  adds is the real number \<open>(endpoint + samples) * h\<close>.
\<close>

lemma trap_loop_empty: "local_b < i \<Longrightarrow> trap_loop g i local_b local_int = local_int"
  by (simp add: trap_loop.simps)

lemma loop_indices_empty: "local_b < i \<Longrightarrow> loop_indices i local_b = []"
  by (simp add: loop_indices.simps)

lemma loop_indices_upto: "loop_indices i local_b = [i..local_b]"
proof (induction i local_b rule: loop_indices.induct)
  case (1 i local_b)
  show ?case
  proof (cases "i \<le> local_b")
    case True
    then show ?thesis using "1.IH" by (subst loop_indices.simps) (simp add: upto_rec1)
  next
    case False
    then show ?thesis by (simp add: loop_indices.simps)
  qed
qed

lemma trap_loop_fold:
  "trap_loop g i local_b local_int =
     fold (\<lambda>j s. dadd s (f (dadd (g_a g) (dmul (double_of_int j) (g_h g)))))
       (loop_indices i local_b) local_int"
proof (induction g i local_b local_int rule: trap_loop.induct)
  case (1 g i local_b local_int)
  show ?case
  proof (cases "i \<le> local_b")
    case True
    then show ?thesis using "1.IH"
      by (subst trap_loop.simps, subst loop_indices.simps) simp
  next
    case False
    then show ?thesis by (simp add: trap_loop.simps loop_indices.simps)
  qed
qed

lemma trap_loop_cong:
  "g_a g = g_a g' \<Longrightarrow> g_h g = g_h g' \<Longrightarrow>
     trap_loop g i local_b local_int = trap_loop g' i local_b local_int"
  by (simp add: trap_loop_fold)

lemma fold_dadd_Fin:
  "fold (\<lambda>j s. dadd s (Fin (G j))) xs (Fin s) = Fin (s + sum_list (map G xs))"
  by (induction xs arbitrary: s) (simp_all add: add.assoc)

lemma trap_loop_Fin:
  assumes "g_a g = Fin a" and "g_h g = Fin h"
  shows "trap_loop g i local_b (Fin s) = Fin (s + samples a h {i..local_b})"
proof -
  have "trap_loop g i local_b (Fin s) =
      fold (\<lambda>j s. dadd s (Fin (f_real (a + of_int j * h)))) [i..local_b] (Fin s)"
    using assms by (simp add: trap_loop_fold loop_indices_upto double_of_int_def f_Fin)
  also have "\<dots> = Fin (s + sum_list (map (\<lambda>j. f_real (a + of_int j * h)) [i..local_b]))"
    by (rule fold_dadd_Fin)
  also have "sum_list (map (\<lambda>j. f_real (a + of_int j * h)) [i..local_b]) = samples a h {i..local_b}"
    by (simp add: samples_def interv_sum_list_conv_sum_set_int)
  finally show ?thesis .
qed

lemma main_setup_h:
  "n \<noteq> 0 \<Longrightarrow> g_h (main_setup n (Fin a) (Fin b) p) = Fin ((b - a) / of_int n)"
  by (simp add: main_setup_def dsub_def double_of_int_def)

lemma endpoint_term_Fin:
  "g_a g = Fin a \<Longrightarrow> g_b g = Fin b \<Longrightarrow> endpoint_term g = Fin (endpoint_real a b)"
  by (simp add: endpoint_term_def endpoint_real_def f_Fin)

lemma int_of_long_id: "0 \<le> k \<Longrightarrow> k \<le> INT_MAX \<Longrightarrow> int_of_long k = k"
  by (simp add: int_of_long_def INT_MAX_def signed_take_bit_int_eq_self)

lemma local_int_of_Fin:
  assumes "g_a g = Fin a" and "g_b g = Fin b" and "g_h g = Fin h"
    and "0 \<le> r" and "r \<le> INT_MAX"
  shows "local_int_of g r =
    Fin (((if r = 1 then endpoint_real a b else 0)
          + samples a h {BLOCK_LOW r (thread_count g) (g_n g)..BLOCK_HIGH r (thread_count g) (g_n g)}) * h)"
  using assms
  by (simp add: local_int_of_def Let_def int_of_long_id endpoint_term_Fin
      trap_loop_Fin [OF assms(1) assms(3)])

lemma local_int_of_cong:
  assumes "g_n g = g_n g'" "g_a g = g_a g'" "g_b g = g_b g'" "g_h g = g_h g'"
    "thread_count g = thread_count g'"
  shows "local_int_of g r = local_int_of g' r"
  using assms trap_loop_cong [of g g']
  by (simp add: local_int_of_def Let_def endpoint_term_def)

section \<open>All workers\<close>

text \<open>
  A run changes only \<^verbatim>\<open>GLOBAL_MUTEX_SUM\<close>, and adds to it the values of the threads in
  the order of the schedule.
\<close>

lemma run_threads_Nil: "run_threads g [] = g"
  by (simp add: run_threads_def)

lemma run_threads_Cons: "run_threads g (r # s) = run_threads (mutex_Trap g r) s"
  by (simp add: run_threads_def)

lemma local_int_of_mutex_Trap: "local_int_of (mutex_Trap g r) r' = local_int_of g r'"
  by (rule local_int_of_cong) (simp_all add: mutex_Trap_def)

lemma run_threads_GLOBAL:
  "GLOBAL_MUTEX_SUM (run_threads g s) =
     fold (\<lambda>r acc. dadd acc (local_int_of g r)) s (GLOBAL_MUTEX_SUM g)"
proof (induction s arbitrary: g)
  case Nil
  show ?case by (simp add: run_threads_Nil)
next
  case (Cons r s)
  have a: "(\<lambda>r' acc. dadd acc (local_int_of (mutex_Trap g r) r'))
      = (\<lambda>r' acc. dadd acc (local_int_of g r'))"
    by (simp add: local_int_of_mutex_Trap)
  have b: "GLOBAL_MUTEX_SUM (mutex_Trap g r) = dadd (GLOBAL_MUTEX_SUM g) (local_int_of g r)"
    by (simp add: mutex_Trap_def)
  show ?case by (simp add: run_threads_Cons Cons.IH a b)
qed

lemma run_threads_more:
  "run_threads g s = g\<lparr>GLOBAL_MUTEX_SUM := GLOBAL_MUTEX_SUM (run_threads g s)\<rparr>"
proof (induction s arbitrary: g)
  case Nil
  show ?case by (simp add: run_threads_Nil)
next
  case (Cons r s)
  show ?case
    by (subst run_threads_Cons, subst Cons.IH) (simp add: run_threads_Cons mutex_Trap_def)
qed

lemma fold_dadd_perm:
  assumes "mset s = mset s'"
  shows "fold (\<lambda>r acc. dadd acc (c r)) s x = fold (\<lambda>r acc. dadd acc (c r)) s' x"
  using assms
  by (rule fold_permuted_eq [where P = "\<lambda>_. True"])
     (simp_all add: dadd_assoc dadd_commute [of "c _" "c _"])

lemma schedule_sum:
  fixes c :: "int \<Rightarrow> real"
  assumes "schedule p s"
  shows "sum_list (map c s) = sum c {0..<p}"
proof -
  have "sum_list (map c s) = sum_mset (image_mset c (mset s))"
    by (simp flip: sum_mset_sum_list)
  also have "\<dots> = sum_mset (image_mset c (mset [0..p - 1]))"
    using assms by (simp add: schedule_def)
  also have "\<dots> = sum_list (map c [0..p - 1])"
    by (simp flip: sum_mset_sum_list)
  also have "\<dots> = sum c {0..p - 1}"
    by (simp add: interv_sum_list_conv_sum_set_int)
  also have "{0..p - 1} = {0..<p}" by auto
  finally show ?thesis .
qed

lemma schedule_set:
  assumes "schedule p s"
  shows "set s = {0..<p}"
proof -
  have "set s = set [0..p - 1]"
    using assms unfolding schedule_def by (rule mset_eq_setD)
  also have "\<dots> = {0..p - 1}" by (rule set_upto)
  also have "\<dots> = {0..<p}" by auto
  finally show ?thesis .
qed

lemma samples_blocks:
  assumes "0 \<le> n" "1 \<le> p"
  shows "(\<Sum>r\<in>{0..<p}. samples a h {BLOCK_LOW r p n..BLOCK_HIGH r p n}) = samples a h {0..<n}"
proof -
  have "samples a h (\<Union>r\<in>{0..<p}. {BLOCK_LOW r p n..BLOCK_HIGH r p n})
      = (\<Sum>r\<in>{0..<p}. samples a h {BLOCK_LOW r p n..BLOCK_HIGH r p n})"
    unfolding samples_def
  proof (rule sum.UNION_disjoint)
    show "\<forall>i\<in>{0..<p}. \<forall>j\<in>{0..<p}. i \<noteq> j \<longrightarrow>
        {BLOCK_LOW i p n..BLOCK_HIGH i p n} \<inter> {BLOCK_LOW j p n..BLOCK_HIGH j p n} = {}"
    proof (intro ballI impI)
      fix i j assume ij: "i \<in> {0..<p}" "j \<in> {0..<p}" "i \<noteq> j"
      show "{BLOCK_LOW i p n..BLOCK_HIGH i p n} \<inter> {BLOCK_LOW j p n..BLOCK_HIGH j p n} = {}"
      proof (cases "i < j")
        case True
        then show ?thesis using ij assms by (intro blocks_disjoint) simp_all
      next
        case False
        then have "j < i" using ij by simp
        then have "{BLOCK_LOW j p n..BLOCK_HIGH j p n} \<inter> {BLOCK_LOW i p n..BLOCK_HIGH i p n} = {}"
          using ij assms by (intro blocks_disjoint) simp_all
        then show ?thesis by (simp add: Int_commute)
      qed
    qed
  qed simp_all
  then show ?thesis by (simp add: blocks_union [OF assms])
qed

lemma fold_local_Fin:
  assumes "\<And>r. r \<in> set s \<Longrightarrow> local_int_of g r = Fin (c r)"
  shows "fold (\<lambda>r acc. dadd acc (local_int_of g r)) s (Fin x) = Fin (x + sum_list (map c s))"
proof -
  have "fold (\<lambda>r acc. dadd acc (local_int_of g r)) s (Fin x)
      = fold (\<lambda>r acc. dadd acc (Fin (c r))) s (Fin x)"
    by (rule fold_cong) (simp_all add: assms)
  then show ?thesis by (simp add: fold_dadd_Fin)
qed

lemma estimate_exact:
  assumes n: "1 \<le> n" and p: "1 \<le> p" "p \<le> INT_MAX" and s: "schedule p s"
  shows "estimate n (Fin a) (Fin b) p s =
    Fin ((b - a) / real_of_int n * ((if 2 \<le> p then endpoint_real a b else 0)
          + samples a ((b - a) / real_of_int n) {0..<n}))"
proof -
  define h where "h = (b - a) / real_of_int n"
  define g where "g = main_setup n (Fin a) (Fin b) p"
  define e where "e r = (if r = 1 then endpoint_real a b else 0)" for r :: int
  define c where "c r = (e r
      + samples a h {BLOCK_LOW r p n..BLOCK_HIGH r p n}) * h" for r
  have ga: "g_a g = Fin a" and gb: "g_b g = Fin b" and gn: "g_n g = n"
    and gp: "thread_count g = p" and g0: "GLOBAL_MUTEX_SUM g = Fin 0"
    by (simp_all add: g_def main_setup_def)
  have gh: "g_h g = Fin h"
    using n by (simp add: g_def h_def main_setup_h)
  have loc: "local_int_of g r = Fin (c r)" if "r \<in> set s" for r
  proof -
    have "0 \<le> r" "r \<le> INT_MAX" using that schedule_set [OF s] p by simp_all
    then show ?thesis
      using local_int_of_Fin [OF ga gb gh, of r] by (simp add: c_def e_def gn gp)
  qed
  have "estimate n (Fin a) (Fin b) p s = Fin (0 + sum_list (map c s))"
    unfolding estimate_def g_def [symmetric] run_threads_GLOBAL g0
    by (rule fold_local_Fin) (rule loc)
  also have "sum_list (map c s) = sum c {0..<p}"
    by (rule schedule_sum [OF s])
  also have "sum c {0..<p} = sum e {0..<p} * h
      + (\<Sum>r\<in>{0..<p}. samples a h {BLOCK_LOW r p n..BLOCK_HIGH r p n}) * h"
    by (simp add: c_def sum.distrib sum_distrib_right distrib_right)
  also have "(\<Sum>r\<in>{0..<p}. samples a h {BLOCK_LOW r p n..BLOCK_HIGH r p n}) = samples a h {0..<n}"
    using n p by (intro samples_blocks) simp_all
  also have "sum e {0..<p} = (if 2 \<le> p then endpoint_real a b else 0)"
    by (simp add: e_def)
  finally show ?thesis by (simp add: algebra_simps h_def)
qed

lemma samples_closed:
  "samples a h {0..<int m} =
     real m * f_real a + h * (2 * a - 4) * (real m * (real m - 1) / 2)
       + h * h * ((real m - 1) * real m * (2 * real m - 1) / 6)"
proof (induction m)
  case 0
  show ?case by (simp add: samples_def)
next
  case (Suc m)
  have ivl: "{0..<int (Suc m)} = insert (int m) {0..<int m}" by auto
  have "samples a h (insert (int m) {0..<int m}) = f_real (a + real m * h) + samples a h {0..<int m}"
    by (simp add: samples_def)
  then have "samples a h {0..<int (Suc m)} = f_real (a + real m * h) + samples a h {0..<int m}"
    by (simp only: ivl)
  also have "\<dots> = f_real (a + real m * h) + (real m * f_real a + h * (2 * a - 4) * (real m * (real m - 1) / 2)
       + h * h * ((real m - 1) * real m * (2 * real m - 1) / 6))"
    by (simp only: Suc.IH)
  finally show ?case
    by (simp add: f_real_def field_simps)
qed

lemma run_threads_perm:
  assumes "mset s = mset s'"
  shows "run_threads g s = run_threads g s'"
proof -
  have "GLOBAL_MUTEX_SUM (run_threads g s) = GLOBAL_MUTEX_SUM (run_threads g s')"
    unfolding run_threads_GLOBAL using assms by (rule fold_dadd_perm)
  then show ?thesis
    using run_threads_more [of g s] run_threads_more [of g s'] by simp
qed

section \<open>Small facts used below\<close>

text \<open>
  The rules that evaluate the program on concrete constants, some schedules, the
  antiderivative of the integrand, and the value of the run of \<^verbatim>\<open>main\<close> as written.
\<close>

lemmas eval_defs = estimate_def run_threads_def mutex_Trap_def local_int_of_def main_setup_def
   BLOCK_LOW_def BLOCK_HIGH_def int_of_long_def endpoint_term_def f_def dsub_def double_of_int_def
   trap_loop.simps loop_indices.simps signed_inf_def signed_divide_int_def

lemma schedule_2: "schedule 2 [0, 1]" "schedule 2 [1, 0]"
  by (simp_all add: schedule_def upto_rec1)

lemma schedule_small:
  "schedule 1 [0]" "schedule 3 [0, 1, 2]" "schedule 3 [2, 0, 1]" "schedule 4 [1, 0, 3, 2]"
  by (simp_all add: schedule_def upto_rec1)

lemma antiderivative_deriv:
  "(antiderivative has_real_derivative f_real x) (at x)"
  unfolding antiderivative_def [abs_def] f_real_def
  by (auto intro!: derivative_eq_intros simp: power2_eq_square)

lemma antiderivative_diff: "antiderivative 5 - antiderivative 1 = 76 / 3"
  by (simp add: antiderivative_def)

lemma main_value:
  assumes "schedule 2 s"
  shows "main s = Fin (76 / 3 + 20 / 10 ^ 7 + 32 / (3 * 10 ^ 14))"
proof -
  have c: "samples 1 (1 / 2500000) {0..<10000000} = 79166661666667 / 1250000"
    using samples_closed [of 1 "1 / 2500000" 10000000] by (simp add: f_real_def)
  have "main s = Fin ((5 - 1) / real_of_int 10000000 * ((if (2::int) \<le> 2 then endpoint_real 1 5 else 0)
          + samples 1 ((5 - 1) / real_of_int 10000000) {0..<10000000}))"
    unfolding main_def using assms by (intro estimate_exact) (simp_all add: INT_MAX_def)
  also have "(5 - 1) / real_of_int 10000000 = 4 / 10 ^ 7" by simp
  finally show ?thesis
    by (simp add: c endpoint_real_def f_real_def)
qed

lemma endpoint_workers_one: "endpoint_workers 1 = []"
  by (simp add: endpoint_workers_def int_of_long_def)

lemma endpoint_workers_two:
  assumes "2 \<le> p" "p \<le> INT_MAX"
  shows "endpoint_workers p = [1]"
proof -
  have eq: "(int_of_long r = 1) = (r = 1)" if "r \<in> set [0..p - 1]" for r
    using that assms by (simp add: int_of_long_id)
  have "endpoint_workers p = filter (\<lambda>r. r = 1) [0..p - 1]"
    unfolding endpoint_workers_def by (rule filter_cong) (simp_all add: eq)
  also have "[0..p - 1] = [0..0] @ [1] @ [2..p - 1]"
    using assms by (simp add: upto_rec1 [of 0 "p - 1"] upto_rec1 [of 1 "p - 1"])
  also have "filter (\<lambda>r. r = 1) \<dots> = [1]"
    by (simp add: filter_empty_conv)
  finally show ?thesis .
qed

lemma fold_dadd_NaN_acc: "fold (\<lambda>r acc. dadd acc (c r)) s NaN = NaN"
  by (induction s) simp_all

lemma fold_dadd_NaN:
  assumes "r \<in> set s" and "c r = NaN"
  shows "fold (\<lambda>r acc. dadd acc (c r)) s x = NaN"
  using assms
proof (induction s arbitrary: x)
  case Nil
  then show ?case by simp
next
  case (Cons r' s)
  show ?case
  proof (cases "r' = r")
    case True
    have "dadd x NaN = NaN" by (cases x) simp_all
    then show ?thesis using True Cons.prems by (simp add: fold_dadd_NaN_acc)
  next
    case False
    then show ?thesis using Cons by simp
  qed
qed

lemma block_zero_total:
  assumes "1 \<le> p" "0 \<le> r"
  shows "BLOCK_LOW r p 0 = 0" "BLOCK_HIGH r p 0 = - 1"
  by (simp_all add: BLOCK_LOW_def BLOCK_HIGH_def)

lemma zero_step_not_finite:
  "dmul (Fin 0) (g_h (main_setup 0 (Fin a) (Fin b) p)) = NaN"
  by (simp add: main_setup_def dsub_def double_of_int_def signed_inf_def)


lemma run_threads_local: "local_int_of (run_threads g s) r = local_int_of g r"
  by (subst run_threads_more) (rule local_int_of_cong, simp_all)



lemma samples_head:
  assumes "1 \<le> n"
  shows "samples a h {0..<n} = f_real a + samples a h {1..n - 1}"
proof -
  have "{0..<n} = insert 0 {1..n - 1}" using assms by auto
  then show ?thesis by (simp add: samples_def)
qed

lemma trapezoid_rule_main: "trapezoid_rule 1 5 10000000 = 76 / 3 + 32 / (3 * 10 ^ 14)"
proof -
  have c: "samples 1 (1 / 2500000) {0..<10000000} = 79166661666667 / 1250000"
    using samples_closed [of 1 "1 / 2500000" 10000000] by (simp add: f_real_def)
  have "samples 1 (1 / 2500000) {0..<10000000}
      = f_real 1 + samples 1 (1 / 2500000) {1..10000000 - 1}"
    by (rule samples_head) simp
  then have "samples 1 (1 / 2500000) {1..9999999} = 79166661666667 / 1250000 - 5"
    using c by (simp add: f_real_def)
  then show ?thesis
    by (simp add: trapezoid_rule_def endpoint_real_def f_real_def)
qed


section \<open>The claims\<close>

subsection \<open>The hardwired run\<close>

text \<open>
  Claim C1. For the hardwired configuration \<open>a = 1\<close>, \<open>b = 5\<close>, \<open>n = 10000000\<close>,
  \<open>f x = x\<^sup>2 - 4 x + 8\<close> and two threads, the value accumulated in \<^verbatim>\<open>GLOBAL_MUTEX_SUM\<close>
  should equal the analytic integral to within the discretization error of the
  trapezoidal rule, about \<open>10\<^sup>-\<^sup>1\<^sup>3\<close> relative. The program does not do that. The
  integrand has the antiderivative \<open>x\<^sup>3 / 3 - 2 x\<^sup>2 + 8 x\<close>, so the analytic integral is
  \<open>76 / 3\<close> (the \<open>106 / 3\<close> of the claim is a slip of arithmetic), and the trapezoidal
  rule with \<open>n\<close> trapezoids, \<open>76 / 3 + 32 / (3 \<sqdot> 10\<^sup>1\<^sup>4)\<close>, is within \<open>10\<^sup>-\<^sup>1\<^sup>3\<close> relative of it.
  In either order of the two threads the program accumulates
  \<open>76 / 3 + 20 / 10\<^sup>7 + 32 / (3 \<sqdot> 10\<^sup>1\<^sup>4)\<close> in exact arithmetic: the loops also visit the
  index 0, which adds \<open>h * f a = 20 / 10\<^sup>7\<close>, so the value is not within \<open>10\<^sup>-\<^sup>1\<^sup>3\<close>
  relative of \<open>76 / 3\<close>, nor of \<open>106 / 3\<close>.
\<close>

theorem main_misses_trapezoid_rule:
  "schedule 2 [0, 1] \<and> schedule 2 [1, 0] \<and>
   main [0, 1] = Fin (76 / 3 + 20 / 10 ^ 7 + 32 / (3 * 10 ^ 14)) \<and>
   main [1, 0] = Fin (76 / 3 + 20 / 10 ^ 7 + 32 / (3 * 10 ^ 14)) \<and>
   (\<forall>x. (antiderivative has_real_derivative f_real x) (at x)) \<and>
   antiderivative 5 - antiderivative 1 = 76 / 3 \<and>
   trapezoid_rule 1 5 10000000 = 76 / 3 + 32 / (3 * 10 ^ 14) \<and>
   close_to (Fin (trapezoid_rule 1 5 10000000)) (76 / 3) (76 / 3 / 10 ^ 13) \<and>
   \<not> close_to (main [0, 1]) (76 / 3) (76 / 3 / 10 ^ 13) \<and>
   \<not> close_to (main [1, 0]) (76 / 3) (76 / 3 / 10 ^ 13) \<and>
   \<not> close_to (main [0, 1]) (106 / 3) (106 / 3 / 10 ^ 13) \<and>
   \<not> close_to (main [1, 0]) (106 / 3) (106 / 3 / 10 ^ 13)"
proof -
  note v = main_value [OF schedule_2(1)] main_value [OF schedule_2(2)]
  have t: "close_to (Fin (trapezoid_rule 1 5 10000000)) (76 / 3) (76 / 3 / 10 ^ 13)"
    by (simp add: trapezoid_rule_main)
  have m: "\<not> close_to (main [0, 1]) (76 / 3) (76 / 3 / 10 ^ 13)"
    "\<not> close_to (main [1, 0]) (76 / 3) (76 / 3 / 10 ^ 13)"
    "\<not> close_to (main [0, 1]) (106 / 3) (106 / 3 / 10 ^ 13)"
    "\<not> close_to (main [1, 0]) (106 / 3) (106 / 3 / 10 ^ 13)"
    by (simp_all add: v)
  have d: "\<forall>x. (antiderivative has_real_derivative f_real x) (at x)"
    by (intro allI antiderivative_deriv)
  show ?thesis
    by (intro conjI schedule_2 v d antiderivative_diff trapezoid_rule_main t m)
qed

subsection \<open>The range partitioner\<close>

text \<open>
  Claim C2. For every worker count \<open>p \<ge> 1\<close> and every total \<open>n \<ge> 0\<close>, the macros compute
  \<open>low = \<lfloor>idx * n / p\<rfloor>\<close> and \<open>high = \<lfloor>(idx + 1) * n / p\<rfloor> - 1\<close>; the inclusive ranges
  \<open>[low, high]\<close> of the workers \<open>0, \<dots>, p - 1\<close> cover exactly \<open>{0, \<dots>, n - 1}\<close>, the ranges
  of two different workers share no index, and the numbers of indices of any two
  workers differ by at most one.
\<close>

theorem block_partition:
  assumes "1 \<le> p" and "0 \<le> n"
  shows "(\<forall>idx\<in>{0..<p}.
            BLOCK_LOW idx p n = \<lfloor>real_of_int (idx * n) / real_of_int p\<rfloor> \<and>
            BLOCK_HIGH idx p n = \<lfloor>real_of_int ((idx + 1) * n) / real_of_int p\<rfloor> - 1) \<and>
         (\<Union>idx\<in>{0..<p}. {BLOCK_LOW idx p n..BLOCK_HIGH idx p n}) = {0..n - 1} \<and>
         (\<forall>i\<in>{0..<p}. \<forall>j\<in>{0..<p}. i \<noteq> j \<longrightarrow>
            {BLOCK_LOW i p n..BLOCK_HIGH i p n} \<inter> {BLOCK_LOW j p n..BLOCK_HIGH j p n} = {}) \<and>
         (\<forall>i\<in>{0..<p}. int (card {BLOCK_LOW i p n..BLOCK_HIGH i p n})
            = BLOCK_HIGH i p n - BLOCK_LOW i p n + 1) \<and>
         (\<forall>i\<in>{0..<p}. \<forall>j\<in>{0..<p}.
            \<bar>int (card {BLOCK_LOW i p n..BLOCK_HIGH i p n})
              - int (card {BLOCK_LOW j p n..BLOCK_HIGH j p n})\<bar> \<le> 1)"
proof -
  have floors: "BLOCK_LOW idx p n = \<lfloor>real_of_int (idx * n) / real_of_int p\<rfloor> \<and>
      BLOCK_HIGH idx p n = \<lfloor>real_of_int ((idx + 1) * n) / real_of_int p\<rfloor> - 1"
    if "idx \<in> {0..<p}" for idx
    using that assms
    by (simp only: BLOCK_HIGH_def floor_divide_of_int_eq) (simp add: BLOCK_LOW_div)
  have cover: "(\<Union>idx\<in>{0..<p}. {BLOCK_LOW idx p n..BLOCK_HIGH idx p n}) = {0..n - 1}"
    using blocks_union [of n p] assms by auto
  have disj: "{BLOCK_LOW i p n..BLOCK_HIGH i p n} \<inter> {BLOCK_LOW j p n..BLOCK_HIGH j p n} = {}"
    if "i \<in> {0..<p}" "j \<in> {0..<p}" "i \<noteq> j" for i j
  proof (cases "i < j")
    case True
    then show ?thesis using that assms by (intro blocks_disjoint) simp_all
  next
    case False
    then have "j < i" using that by simp
    then have "{BLOCK_LOW j p n..BLOCK_HIGH j p n} \<inter> {BLOCK_LOW i p n..BLOCK_HIGH i p n} = {}"
      using that assms by (intro blocks_disjoint) simp_all
    then show ?thesis by (simp add: Int_commute)
  qed
  have size: "int (card {BLOCK_LOW i p n..BLOCK_HIGH i p n})
      = BLOCK_HIGH i p n - BLOCK_LOW i p n + 1" if "i \<in> {0..<p}" for i
  proof -
    have "BLOCK_LOW i p n \<le> BLOCK_LOW (i + 1) p n"
      using that assms by (intro BLOCK_LOW_mono) simp_all
    then show ?thesis by (simp add: BLOCK_HIGH_def)
  qed
  have bounds: "n div p \<le> BLOCK_HIGH i p n - BLOCK_LOW i p n + 1 \<and>
      BLOCK_HIGH i p n - BLOCK_LOW i p n + 1 \<le> n div p + 1" if "i \<in> {0..<p}" for i
    using block_size_bounds [of i n p] that assms by (simp add: BLOCK_HIGH_def)
  have balanced: "\<bar>int (card {BLOCK_LOW i p n..BLOCK_HIGH i p n})
      - int (card {BLOCK_LOW j p n..BLOCK_HIGH j p n})\<bar> \<le> 1"
    if "i \<in> {0..<p}" "j \<in> {0..<p}" for i j
    using bounds [OF that(1)] bounds [OF that(2)] size [OF that(1)] size [OF that(2)]
    by linarith
  have F: "\<forall>idx\<in>{0..<p}.
      BLOCK_LOW idx p n = \<lfloor>real_of_int (idx * n) / real_of_int p\<rfloor> \<and>
      BLOCK_HIGH idx p n = \<lfloor>real_of_int ((idx + 1) * n) / real_of_int p\<rfloor> - 1"
    by (intro ballI floors)
  have D: "\<forall>i\<in>{0..<p}. \<forall>j\<in>{0..<p}. i \<noteq> j \<longrightarrow>
      {BLOCK_LOW i p n..BLOCK_HIGH i p n} \<inter> {BLOCK_LOW j p n..BLOCK_HIGH j p n} = {}"
    by (intro ballI impI disj)
  have S: "\<forall>i\<in>{0..<p}. int (card {BLOCK_LOW i p n..BLOCK_HIGH i p n})
      = BLOCK_HIGH i p n - BLOCK_LOW i p n + 1"
    by (intro ballI size)
  have B: "\<forall>i\<in>{0..<p}. \<forall>j\<in>{0..<p}.
      \<bar>int (card {BLOCK_LOW i p n..BLOCK_HIGH i p n})
        - int (card {BLOCK_LOW j p n..BLOCK_HIGH j p n})\<bar> \<le> 1"
    by (intro ballI balanced)
  show ?thesis
    by (intro conjI F cover D S B)
qed

theorem block_partition_witness:
  "(1::int) \<le> 3 \<and> (0::int) \<le> 10 \<and>
   BLOCK_LOW 2 3 10 = 6 \<and> BLOCK_HIGH 2 3 10 = 9 \<and>
   (\<Union>idx\<in>{0..<3}. {BLOCK_LOW idx 3 10..BLOCK_HIGH idx 3 10}) = {0..9} \<and>
   {BLOCK_LOW 0 3 10..BLOCK_HIGH 0 3 10} \<inter> {BLOCK_LOW 2 3 10..BLOCK_HIGH 2 3 10} = {} \<and>
   \<bar>int (card {BLOCK_LOW 0 3 10..BLOCK_HIGH 0 3 10})
     - int (card {BLOCK_LOW 2 3 10..BLOCK_HIGH 2 3 10})\<bar> \<le> 1"
proof -
  have p: "(1::int) \<le> 3" and n: "(0::int) \<le> 10" by simp_all
  note t = block_partition [OF p n]
  note cover = t [THEN conjunct2, THEN conjunct1]
  note disj = t [THEN conjunct2, THEN conjunct2, THEN conjunct1, rule_format]
  note balanced = t [THEN conjunct2, THEN conjunct2, THEN conjunct2, THEN conjunct2, rule_format]
  have m: "(0::int) \<in> {0..<3}" "(2::int) \<in> {0..<3}" "(0::int) \<noteq> 2" by simp_all
  have nine: "(10::int) - 1 = 9" by simp
  have "BLOCK_LOW 2 3 10 = 6" "BLOCK_HIGH 2 3 10 = 9"
    by (simp_all add: BLOCK_HIGH_def BLOCK_LOW_def)
  moreover have "(\<Union>idx\<in>{0..<3}. {BLOCK_LOW idx 3 10..BLOCK_HIGH idx 3 10}) = {0..9}"
    using cover unfolding nine .
  moreover note disj [OF m(1) m(2) m(3)] balanced [OF m(1) m(2)]
  ultimately show ?thesis using p n by (simp only: simp_thms)
qed

subsection \<open>The endpoint term\<close>

text \<open>
  Claim C3, as amended. For every worker count \<open>p \<ge> 2\<close> (and every \<open>n \<ge> 1\<close>), exactly
  one of the workers \<open>0, \<dots>, p - 1\<close> passes the test \<^verbatim>\<open>especial_case == 1\<close>, the worker of
  rank 1; the value a worker adds is \<open>h\<close> times the sum of the samples of its range,
  plus \<open>h (f a + f b) / 2\<close> for rank 1 only; and the total holds the endpoint term
  exactly once, next to the samples of all indices \<open>0, \<dots>, n - 1\<close>, however the ranges
  are cut.
\<close>

theorem endpoint_term_once:
  assumes "2 \<le> p" and "p \<le> INT_MAX" and "1 \<le> n" and "schedule p s"
  shows "endpoint_workers p = [1] \<and>
         (\<forall>r\<in>{0..<p}. local_int_of (main_setup n (Fin a) (Fin b) p) r =
            Fin (((if r = 1 then endpoint_real a b else 0)
                  + samples a ((b - a) / real_of_int n) {BLOCK_LOW r p n..BLOCK_HIGH r p n})
                 * ((b - a) / real_of_int n))) \<and>
         estimate n (Fin a) (Fin b) p s =
            Fin ((b - a) / real_of_int n
                 * (endpoint_real a b + samples a ((b - a) / real_of_int n) {0..<n}))"
proof -
  have loc: "local_int_of (main_setup n (Fin a) (Fin b) p) r =
            Fin (((if r = 1 then endpoint_real a b else 0)
                  + samples a ((b - a) / real_of_int n) {BLOCK_LOW r p n..BLOCK_HIGH r p n})
                 * ((b - a) / real_of_int n))" if "r \<in> {0..<p}" for r
  proof -
    have h: "g_h (main_setup n (Fin a) (Fin b) p) = Fin ((b - a) / real_of_int n)"
      using assms by (simp add: main_setup_h)
    have "0 \<le> r" "r \<le> INT_MAX" using that assms by simp_all
    then show ?thesis
      using local_int_of_Fin [OF _ _ h, of a b r] by (simp add: main_setup_def)
  qed
  have "estimate n (Fin a) (Fin b) p s =
      Fin ((b - a) / real_of_int n * ((if 2 \<le> p then endpoint_real a b else 0)
          + samples a ((b - a) / real_of_int n) {0..<n}))"
    using assms by (intro estimate_exact) simp_all
  then show ?thesis
    using assms loc by (simp add: endpoint_workers_two)
qed

theorem endpoint_term_once_witness:
  "(2::int) \<le> 4 \<and> 4 \<le> INT_MAX \<and> (1::int) \<le> 4 \<and> schedule 4 [1, 0, 3, 2] \<and>
   endpoint_workers 4 = [1] \<and>
   local_int_of (main_setup 4 (Fin 1) (Fin 5) 4) 0 = Fin 5 \<and>
   local_int_of (main_setup 4 (Fin 1) (Fin 5) 4) 1 = Fin 13 \<and>
   estimate 4 (Fin 1) (Fin 5) 4 [1, 0, 3, 2] = Fin 31"
proof -
  have h: "(2::int) \<le> 4" "4 \<le> INT_MAX" "(1::int) \<le> 4" by (simp_all add: INT_MAX_def)
  note t = endpoint_term_once [OF h schedule_small(4), of 1 5]
  note loc = t [THEN conjunct2, THEN conjunct1, rule_format]
  have m: "(0::int) \<in> {0..<4}" "(1::int) \<in> {0..<4}" by simp_all
  have "local_int_of (main_setup 4 (Fin 1) (Fin 5) 4) 0 = Fin 5"
    using loc [OF m(1)]
    by (simp add: BLOCK_LOW_def BLOCK_HIGH_def samples_def f_real_def)
  moreover have "local_int_of (main_setup 4 (Fin 1) (Fin 5) 4) 1 = Fin 13"
    using loc [OF m(2)]
    by (simp add: BLOCK_LOW_def BLOCK_HIGH_def samples_def f_real_def endpoint_real_def)
  moreover have "estimate 4 (Fin 1) (Fin 5) 4 [1, 0, 3, 2] = Fin 31"
    by (simp add: eval_defs)
  ultimately show ?thesis
    using h schedule_small(4) t [THEN conjunct1] by simp
qed

text \<open>
  With one worker the claim fails: the only rank is 0, no thread passes the test, and
  the total is the bare sum of the samples (22 for \<open>n = 4\<close> on \<open>[1, 5]\<close>, where two
  workers give 31).
\<close>

theorem endpoint_term_never_with_one_worker:
  "schedule 1 [0] \<and> endpoint_workers 1 = [] \<and> length (endpoint_workers 1) \<noteq> 1 \<and>
   local_int_of (main_setup 4 (Fin 1) (Fin 5) 1) 0 = Fin 22 \<and>
   estimate 4 (Fin 1) (Fin 5) 1 [0] = Fin 22 \<and>
   estimate 4 (Fin 1) (Fin 5) 2 [0, 1] = Fin 31"
  using schedule_small(1) by (simp add: endpoint_workers_one) (simp add: eval_defs)

subsection \<open>Independence of the worker count\<close>

text \<open>
  Claim C4, as amended. For fixed finite \<open>a\<close>, \<open>b\<close> and \<open>n \<ge> 1\<close>, in exact arithmetic the
  final estimate is the same for any two worker counts \<open>p, p' \<ge> 2\<close>, in particular for
  2, 4 and 8, and for any schedules.
\<close>

theorem estimate_worker_count:
  assumes "1 \<le> n" and "2 \<le> p" and "p \<le> INT_MAX" and "2 \<le> p'" and "p' \<le> INT_MAX"
    and "schedule p s" and "schedule p' s'"
  shows "estimate n (Fin a) (Fin b) p s = estimate n (Fin a) (Fin b) p' s'"
proof -
  have "estimate n (Fin a) (Fin b) p s =
      Fin ((b - a) / real_of_int n * ((if 2 \<le> p then endpoint_real a b else 0)
          + samples a ((b - a) / real_of_int n) {0..<n}))"
    using assms by (intro estimate_exact) simp_all
  moreover have "estimate n (Fin a) (Fin b) p' s' =
      Fin ((b - a) / real_of_int n * ((if 2 \<le> p' then endpoint_real a b else 0)
          + samples a ((b - a) / real_of_int n) {0..<n}))"
    using assms by (intro estimate_exact) simp_all
  ultimately show ?thesis using assms by simp
qed

theorem estimate_worker_count_witness:
  "(1::int) \<le> 4 \<and> (2::int) \<le> 2 \<and> 2 \<le> INT_MAX \<and> (2::int) \<le> 4 \<and> 4 \<le> INT_MAX \<and>
   schedule 2 [0, 1] \<and> schedule 4 [1, 0, 3, 2] \<and>
   estimate 4 (Fin 1) (Fin 5) 2 [0, 1] = estimate 4 (Fin 1) (Fin 5) 4 [1, 0, 3, 2] \<and>
   estimate 4 (Fin 1) (Fin 5) 2 [0, 1] = Fin 31"
proof -
  have h: "(1::int) \<le> 4" "(2::int) \<le> 2" "2 \<le> INT_MAX" "(2::int) \<le> 4" "4 \<le> INT_MAX"
    by (simp_all add: INT_MAX_def)
  have "estimate 4 (Fin 1) (Fin 5) 2 [0, 1] = Fin 31"
    by (simp add: eval_defs)
  then show ?thesis
    using estimate_worker_count [OF h schedule_2(1) schedule_small(4), of 1 5]
      h schedule_2(1) schedule_small(4) by simp
qed

text \<open>
  One worker gives another value: 22 against 31 for \<open>n = 4\<close> on \<open>[1, 5]\<close>, and for
  \<open>n = 10000000\<close> a value more than \<open>10\<^sup>-\<^sup>9\<close> away from the value of two workers.
\<close>

theorem estimate_one_worker_differs:
  "schedule 1 [0] \<and> schedule 2 [0, 1] \<and>
   estimate 4 (Fin 1) (Fin 5) 1 [0] = Fin 22 \<and>
   estimate 4 (Fin 1) (Fin 5) 2 [0, 1] = Fin 31 \<and>
   \<not> close_to (estimate 4 (Fin 1) (Fin 5) 1 [0]) 31 (1 / 10 ^ 9) \<and>
   estimate 10000000 (Fin 1) (Fin 5) 2 [0, 1] = Fin (76 / 3 + 20 / 10 ^ 7 + 32 / (3 * 10 ^ 14)) \<and>
   \<not> close_to (estimate 10000000 (Fin 1) (Fin 5) 1 [0])
        (76 / 3 + 20 / 10 ^ 7 + 32 / (3 * 10 ^ 14)) (1 / 10 ^ 9)"
proof -
  have small: "estimate 4 (Fin 1) (Fin 5) 1 [0] = Fin 22"
    "estimate 4 (Fin 1) (Fin 5) 2 [0, 1] = Fin 31"
    by (simp_all add: eval_defs)
  have two: "estimate 10000000 (Fin 1) (Fin 5) 2 [0, 1]
      = Fin (76 / 3 + 20 / 10 ^ 7 + 32 / (3 * 10 ^ 14))"
    using main_value [OF schedule_2(1)] by (simp add: main_def)
  have c: "samples 1 (1 / 2500000) {0..<10000000} = 79166661666667 / 1250000"
    using samples_closed [of 1 "1 / 2500000" 10000000] by (simp add: f_real_def)
  have "estimate 10000000 (Fin 1) (Fin 5) 1 [0] =
      Fin ((5 - 1) / real_of_int 10000000 * ((if (2::int) \<le> 1 then endpoint_real 1 5 else 0)
          + samples 1 ((5 - 1) / real_of_int 10000000) {0..<10000000}))"
    using schedule_small(1) by (intro estimate_exact) (simp_all add: INT_MAX_def)
  then have one: "estimate 10000000 (Fin 1) (Fin 5) 1 [0] = Fin (79166661666667 / 3125000000000)"
    by (simp add: c)
  show ?thesis
    using schedule_small(1) schedule_2(1) by (simp add: small two one)
qed

subsection \<open>No subdivisions\<close>

text \<open>
  Claim C5, as amended. When \<open>n = 0\<close>, for every worker count \<open>p \<ge> 1\<close> the range of every
  worker is empty (\<open>low = 0\<close>, \<open>high = -1\<close>) and its loop visits no index; the step
  \<open>h = (b - a) / n\<close> is a division by zero, worker 0 multiplies its local sum \<open>0\<close> by a
  value that is not finite, and the final total is NaN, not 0.
\<close>

theorem zero_subdivisions:
  assumes "1 \<le> p" and "schedule p s"
  shows "(\<forall>r\<in>{0..<p}. BLOCK_LOW r p 0 = 0 \<and> BLOCK_HIGH r p 0 = - 1 \<and>
            loop_indices (BLOCK_LOW r p 0) (BLOCK_HIGH r p 0) = []) \<and>
         estimate 0 (Fin a) (Fin b) p s = NaN"
proof -
  define g where "g = main_setup 0 (Fin a) (Fin b) p"
  have ranges: "BLOCK_LOW r p 0 = 0 \<and> BLOCK_HIGH r p 0 = - 1 \<and>
      loop_indices (BLOCK_LOW r p 0) (BLOCK_HIGH r p 0) = []" if "r \<in> {0..<p}" for r
    using that assms by (simp add: block_zero_total loop_indices_empty)
  have gn: "g_n g = 0" by (simp add: g_def main_setup_def)
  have "local_int_of g 0 = dmul (Fin 0) (g_h g)"
    by (simp add: local_int_of_def int_of_long_def BLOCK_LOW_def BLOCK_HIGH_def trap_loop_empty gn)
  then have nan: "local_int_of g 0 = NaN"
    by (simp add: g_def zero_step_not_finite)
  have "0 \<in> set s" using assms by (simp add: schedule_set)
  then have "fold (\<lambda>r acc. dadd acc (local_int_of g r)) s (GLOBAL_MUTEX_SUM g) = NaN"
    using nan by (rule fold_dadd_NaN)
  then have "estimate 0 (Fin a) (Fin b) p s = NaN"
    by (simp add: estimate_def g_def run_threads_GLOBAL)
  moreover have "\<forall>r\<in>{0..<p}. BLOCK_LOW r p 0 = 0 \<and> BLOCK_HIGH r p 0 = - 1 \<and>
      loop_indices (BLOCK_LOW r p 0) (BLOCK_HIGH r p 0) = []"
    by (intro ballI ranges)
  ultimately show ?thesis by (intro conjI)
qed

theorem zero_subdivisions_witness:
  "(1::int) \<le> 2 \<and> schedule 2 [0, 1] \<and>
   BLOCK_LOW 1 2 0 = 0 \<and> BLOCK_HIGH 1 2 0 = - 1 \<and>
   loop_indices (BLOCK_LOW 1 2 0) (BLOCK_HIGH 1 2 0) = [] \<and>
   estimate 0 (Fin 1) (Fin 5) 2 [0, 1] = NaN"
proof -
  have h: "(1::int) \<le> 2" by simp
  note t = zero_subdivisions [OF h schedule_2(1), of 1 5]
  have m: "(1::int) \<in> {0..<2}" by simp
  show ?thesis
    using h schedule_2(1) t [THEN conjunct1, rule_format, OF m] t [THEN conjunct2]
    by (simp add: loop_indices_empty)
qed

text \<open>
  The claim as stated fails for \<open>n = 0\<close> on \<open>[1, 5]\<close> with two workers: \<open>h\<close> is
  \<open>+\<infinity>\<close>, worker 0 adds \<open>0 * \<infinity> = NaN\<close>, worker 1 adds \<open>9 * \<infinity> = \<infinity>\<close>, and the total is
  NaN.
\<close>

theorem zero_subdivisions_total_not_zero:
  "schedule 2 [0, 1] \<and>
   g_h (main_setup 0 (Fin 1) (Fin 5) 2) = PInf \<and>
   local_int_of (main_setup 0 (Fin 1) (Fin 5) 2) 0 = NaN \<and>
   local_int_of (main_setup 0 (Fin 1) (Fin 5) 2) 1 = PInf \<and>
   estimate 0 (Fin 1) (Fin 5) 2 [0, 1] = NaN \<and>
   estimate 0 (Fin 1) (Fin 5) 2 [0, 1] \<noteq> Fin 0"
  using schedule_2(1) by (simp add: eval_defs)

subsection \<open>Workers with an empty range\<close>

text \<open>
  Claim C6, as amended. Whenever \<open>1 \<le> n < p\<close>, a worker whose range is empty
  (\<open>high < low\<close>) visits no sample index, and unless its rank is 1 the value it adds
  is \<open>0\<close>: its locked addition leaves the accumulator as it was.
\<close>

theorem empty_range_adds_zero:
  assumes "1 \<le> n" and "n < p" and "p \<le> INT_MAX" and "0 \<le> r" and "r < p"
    and "BLOCK_HIGH r p n < BLOCK_LOW r p n"
  shows "loop_indices (BLOCK_LOW r p n) (BLOCK_HIGH r p n) = [] \<and>
         (r \<noteq> 1 \<longrightarrow>
            local_int_of (main_setup n (Fin a) (Fin b) p) r = Fin 0 \<and>
            GLOBAL_MUTEX_SUM
              (mutex_Trap ((main_setup n (Fin a) (Fin b) p)\<lparr>GLOBAL_MUTEX_SUM := x\<rparr>) r) = x)"
proof -
  define g where "g = main_setup n (Fin a) (Fin b) p"
  have h: "g_h g = Fin ((b - a) / real_of_int n)"
    using assms by (simp add: g_def main_setup_h)
  have ga: "g_a g = Fin a" and gb: "g_b g = Fin b" and gn: "g_n g = n" and gp: "thread_count g = p"
    by (simp_all add: g_def main_setup_def)
  have rr: "r \<le> INT_MAX" using assms by simp
  have empty: "{BLOCK_LOW r p n..BLOCK_HIGH r p n} = {}" using assms by simp
  have zero: "local_int_of g r = Fin 0" if "r \<noteq> 1"
    using local_int_of_Fin [OF ga gb h assms(4) rr] that
    by (simp add: gn gp empty samples_def)
  have "local_int_of (g\<lparr>GLOBAL_MUTEX_SUM := x\<rparr>) r = local_int_of g r"
    by (rule local_int_of_cong) simp_all
  then have "GLOBAL_MUTEX_SUM (mutex_Trap (g\<lparr>GLOBAL_MUTEX_SUM := x\<rparr>) r) = x" if "r \<noteq> 1"
    using zero [OF that] by (simp add: mutex_Trap_def dadd_zero_right)
  then show ?thesis
    using zero assms by (simp add: g_def loop_indices_empty)
qed

theorem empty_range_adds_zero_witness:
  "(1::int) \<le> 1 \<and> (1::int) < 3 \<and> 3 \<le> INT_MAX \<and> (0::int) \<le> 0 \<and> (0::int) < 3 \<and>
   BLOCK_HIGH 0 3 1 < BLOCK_LOW 0 3 1 \<and>
   loop_indices (BLOCK_LOW 0 3 1) (BLOCK_HIGH 0 3 1) = [] \<and>
   local_int_of (main_setup 1 (Fin 1) (Fin 5) 3) 0 = Fin 0 \<and>
   GLOBAL_MUTEX_SUM
     (mutex_Trap ((main_setup 1 (Fin 1) (Fin 5) 3)\<lparr>GLOBAL_MUTEX_SUM := Fin 7\<rparr>) 0) = Fin 7"
proof -
  have h: "(1::int) \<le> 1" "(1::int) < 3" "3 \<le> INT_MAX" "(0::int) \<le> 0" "(0::int) < 3"
    "BLOCK_HIGH 0 3 1 < BLOCK_LOW 0 3 1"
    by (simp_all add: INT_MAX_def BLOCK_HIGH_def BLOCK_LOW_def signed_divide_int_def)
  show ?thesis
    using h empty_range_adds_zero [OF h, of 1 5 "Fin 7"] by simp
qed

text \<open>
  The claim as stated fails for \<open>n = 1\<close> and three workers on \<open>[1, 5]\<close>: the range of
  worker 1 is empty (\<open>low = 0\<close>, \<open>high = -1\<close>), and it adds \<open>4 * (5 + 13) / 2 = 36\<close>. It
  fails also for \<open>n = 0\<close>, where worker 0 adds NaN.
\<close>

theorem empty_range_of_worker_one_adds:
  "(1::int) < 3 \<and> BLOCK_LOW 1 3 1 = 0 \<and> BLOCK_HIGH 1 3 1 = - 1 \<and>
   BLOCK_HIGH 1 3 1 < BLOCK_LOW 1 3 1 \<and>
   local_int_of (main_setup 1 (Fin 1) (Fin 5) 3) 1 = Fin 36 \<and>
   local_int_of (main_setup 1 (Fin 1) (Fin 5) 3) 1 \<noteq> Fin 0 \<and>
   GLOBAL_MUTEX_SUM (mutex_Trap (main_setup 1 (Fin 1) (Fin 5) 3) 1) = Fin 36 \<and>
   (0::int) < 2 \<and> BLOCK_HIGH 0 2 0 < BLOCK_LOW 0 2 0 \<and>
   local_int_of (main_setup 0 (Fin 1) (Fin 5) 2) 0 = NaN"
  by (simp add: eval_defs)

subsection \<open>The order of the locked additions\<close>

text \<open>
  Claim C7. In exact arithmetic the final value of \<^verbatim>\<open>GLOBAL_MUTEX_SUM\<close> does not depend
  on the order in which the workers perform their locked additions: any two schedules
  of the same workers lead from the same globals to the same sum, and so to the same
  estimate.
\<close>

theorem locked_adds_any_order:
  assumes "schedule p s" and "schedule p s'"
  shows "GLOBAL_MUTEX_SUM (run_threads g s) = GLOBAL_MUTEX_SUM (run_threads g s') \<and>
         estimate n a b p s = estimate n a b p s'"
proof -
  have "mset s = mset s'" using assms by (simp add: schedule_def)
  then have "run_threads g' s = run_threads g' s'" for g'
    by (rule run_threads_perm)
  then show ?thesis by (simp add: estimate_def)
qed

theorem locked_adds_any_order_witness:
  "schedule 3 [0, 1, 2] \<and> schedule 3 [2, 0, 1] \<and>
   estimate 4 (Fin 1) (Fin 5) 3 [0, 1, 2] = estimate 4 (Fin 1) (Fin 5) 3 [2, 0, 1] \<and>
   estimate 4 (Fin 1) (Fin 5) 3 [2, 0, 1] = Fin 31"
proof -
  have "estimate 4 (Fin 1) (Fin 5) 3 [2, 0, 1] = Fin 31"
    by (simp add: eval_defs)
  then show ?thesis
    using locked_adds_any_order [OF schedule_small(2) schedule_small(3)]
      schedule_small(2) schedule_small(3)
    by simp
qed

subsection \<open>The endpoint term and an empty range\<close>




subsection \<open>What a worker adds\<close>

text \<open>
  Claim C10. The value a worker adds to \<^verbatim>\<open>GLOBAL_MUTEX_SUM\<close> is a function of its rank
  and of \<^verbatim>\<open>n\<close>, \<^verbatim>\<open>a\<close>, \<^verbatim>\<open>b\<close>, \<^verbatim>\<open>h\<close>, \<^verbatim>\<open>thread_count\<close> only: two states of the globals
  that agree on these five give the same value, whatever the accumulator holds and
  whatever other workers have already added, and the locked addition adds exactly
  that value.
\<close>

theorem worker_amount_deterministic:
  assumes "g_n g = g_n g'" and "g_a g = g_a g'" and "g_b g = g_b g'" and "g_h g = g_h g'"
    and "thread_count g = thread_count g'"
  shows "local_int_of g r = local_int_of g' r \<and>
         local_int_of (run_threads g s) r = local_int_of (run_threads g' s') r \<and>
         GLOBAL_MUTEX_SUM (mutex_Trap g r) = dadd (GLOBAL_MUTEX_SUM g) (local_int_of g' r)"
proof -
  have eq: "local_int_of g r = local_int_of g' r"
    using assms by (rule local_int_of_cong)
  then show ?thesis
    by (simp add: run_threads_local mutex_Trap_def)
qed

theorem worker_amount_deterministic_witness:
  "local_int_of (main_setup 4 (Fin 1) (Fin 5) 2) 1
     = local_int_of ((main_setup 4 (Fin 1) (Fin 5) 2)\<lparr>GLOBAL_MUTEX_SUM := Fin 100\<rparr>) 1 \<and>
   local_int_of (run_threads (main_setup 4 (Fin 1) (Fin 5) 2) [0]) 1
     = local_int_of ((main_setup 4 (Fin 1) (Fin 5) 2)\<lparr>GLOBAL_MUTEX_SUM := Fin 100\<rparr>) 1 \<and>
   local_int_of (main_setup 4 (Fin 1) (Fin 5) 2) 1 = Fin 22 \<and>
   GLOBAL_MUTEX_SUM (mutex_Trap ((main_setup 4 (Fin 1) (Fin 5) 2)\<lparr>GLOBAL_MUTEX_SUM := Fin 100\<rparr>) 1)
     = Fin 122"
proof -
  define g where "g = main_setup 4 (Fin 1) (Fin 5) 2"
  define g' where "g' = g\<lparr>GLOBAL_MUTEX_SUM := Fin 100\<rparr>"
  have agree: "g_n g = g_n g'" "g_a g = g_a g'" "g_b g = g_b g'" "g_h g = g_h g'"
    "thread_count g = thread_count g'"
    by (simp_all add: g'_def)
  note t = worker_amount_deterministic [OF agree, of 1 "[0]" "[]"]
  note t' = worker_amount_deterministic [OF agree [symmetric], of 1 "[]" "[]"]
  have v: "local_int_of g 1 = Fin 22"
    by (simp add: g_def eval_defs)
  have "GLOBAL_MUTEX_SUM (mutex_Trap g' 1) = Fin 122"
    using t' [THEN conjunct2, THEN conjunct2] v by (simp add: g'_def)
  then show ?thesis
    using t v by (simp add: g_def g'_def run_threads_Nil)
qed

section \<open>Further properties\<close>

text \<open>
  With at least two workers and \<open>n \<ge> 1\<close>, the estimate is the trapezoidal rule plus one
  extra term \<open>h * f a\<close>: the loops visit the index 0, whose sample is already counted
  with half weight in the endpoint term.
\<close>

theorem estimate_exceeds_trapezoid_rule:
  assumes "1 \<le> n" and "2 \<le> p" and "p \<le> INT_MAX" and "schedule p s"
  shows "estimate n (Fin a) (Fin b) p s =
           Fin (trapezoid_rule a b n + (b - a) / real_of_int n * f_real a)"
proof -
  have "estimate n (Fin a) (Fin b) p s =
      Fin ((b - a) / real_of_int n * ((if 2 \<le> p then endpoint_real a b else 0)
          + samples a ((b - a) / real_of_int n) {0..<n}))"
    using assms by (intro estimate_exact) simp_all
  then show ?thesis
    using assms by (simp add: trapezoid_rule_def samples_head algebra_simps)
qed

theorem estimate_exceeds_trapezoid_rule_witness:
  "(1::int) \<le> 4 \<and> (2::int) \<le> 2 \<and> 2 \<le> INT_MAX \<and> schedule 2 [0, 1] \<and>
   trapezoid_rule 1 5 4 = 26 \<and> estimate 4 (Fin 1) (Fin 5) 2 [0, 1] = Fin 31"
proof -
  have h: "(1::int) \<le> 4" "(2::int) \<le> 2" "2 \<le> INT_MAX" by (simp_all add: INT_MAX_def)
  have "{1..3::int} = {1, 2, 3}" by auto
  then have t: "trapezoid_rule 1 5 4 = 26"
    by (simp add: trapezoid_rule_def endpoint_real_def samples_def f_real_def)
  show ?thesis
    using estimate_exceeds_trapezoid_rule [OF h schedule_2(1), of 1 5] h schedule_2(1) t
    by (simp add: f_real_def)
qed

text \<open>
  When the worker count divides \<open>n\<close>, every worker gets exactly \<open>n / p\<close> indices.
\<close>

theorem block_equal_sizes:
  assumes "1 \<le> p" and "0 \<le> n" and "p dvd n" and "0 \<le> idx" and "idx < p"
  shows "BLOCK_LOW idx p n = idx * (n div p) \<and>
         BLOCK_HIGH idx p n = (idx + 1) * (n div p) - 1 \<and>
         int (card {BLOCK_LOW idx p n..BLOCK_HIGH idx p n}) = n div p"
proof -
  have low: "BLOCK_LOW i p n = i * (n div p)" if "0 \<le> i" for i
    using that assms by (simp add: BLOCK_LOW_div div_mult_swap)
  have "0 \<le> n div p" using assms by (simp add: pos_imp_zdiv_nonneg_iff)
  then show ?thesis
    using assms by (simp add: BLOCK_HIGH_def low algebra_simps)
qed

theorem block_equal_sizes_witness:
  "(1::int) \<le> 2 \<and> (0::int) \<le> 10000000 \<and> (2::int) dvd 10000000 \<and> (0::int) \<le> 1 \<and> (1::int) < 2 \<and>
   BLOCK_LOW 1 2 10000000 = 5000000 \<and> BLOCK_HIGH 1 2 10000000 = 9999999 \<and>
   int (card {BLOCK_LOW 1 2 10000000..BLOCK_HIGH 1 2 10000000}) = 5000000"
proof -
  have h: "(1::int) \<le> 2" "(0::int) \<le> 10000000" "(2::int) dvd 10000000" "(0::int) \<le> 1" "(1::int) < 2"
    by simp_all
  show ?thesis
    using block_equal_sizes [OF h] h by simp
qed

text \<open>
  For every 32-bit \<^verbatim>\<open>n \<ge> 0\<close> and \<^verbatim>\<open>thread_count\<close>, the products the macros compute fit
  in 64 bits and the bounds of a block lie between \<open>-1\<close> and \<open>n\<close>.
\<close>

theorem block_products_fit_long:
  assumes "0 \<le> idx" and "idx < p" and "p \<le> INT_MAX" and "0 \<le> n" and "n \<le> INT_MAX"
  shows "0 \<le> idx * n \<and> idx * n < 2 ^ 63 \<and> 0 \<le> (idx + 1) * n \<and> (idx + 1) * n < 2 ^ 63 \<and>
         0 \<le> BLOCK_LOW idx p n \<and> BLOCK_LOW idx p n \<le> n \<and>
         - 1 \<le> BLOCK_HIGH idx p n \<and> BLOCK_HIGH idx p n < n"
proof -
  have a: "idx * n \<le> (idx + 1) * n" using assms by (simp add: mult_right_mono)
  have p1: "1 \<le> p" using assms by simp
  have "BLOCK_LOW idx p n \<le> BLOCK_LOW p p n"
    using assms by (intro BLOCK_LOW_mono) simp_all
  moreover have "BLOCK_LOW (idx + 1) p n \<le> BLOCK_LOW p p n"
    using assms by (intro BLOCK_LOW_mono) simp_all
  moreover have "0 \<le> BLOCK_LOW idx p n" "0 \<le> BLOCK_LOW (idx + 1) p n"
    using assms by (simp_all add: BLOCK_LOW_nonneg)
  ultimately show ?thesis
    using block_product_fits [OF assms] a assms
    by (simp add: BLOCK_LOW_top [OF p1] BLOCK_HIGH_def)
qed

theorem block_products_fit_long_witness:
  "(0::int) \<le> 1 \<and> (1::int) < 2 \<and> 2 \<le> INT_MAX \<and> 0 \<le> INT_MAX \<and> INT_MAX \<le> INT_MAX \<and>
   2 * INT_MAX < 2 ^ 63 \<and> BLOCK_LOW 1 2 INT_MAX = 1073741823 \<and>
   BLOCK_HIGH 1 2 INT_MAX = 2147483646"
proof -
  have h: "(0::int) \<le> 1" "(1::int) < 2" "2 \<le> INT_MAX" "0 \<le> INT_MAX" "INT_MAX \<le> INT_MAX"
    by (simp_all add: INT_MAX_def)
  have "BLOCK_LOW 1 2 INT_MAX = 1073741823" "BLOCK_HIGH 1 2 INT_MAX = 2147483646"
    by (simp_all add: BLOCK_LOW_def BLOCK_HIGH_def INT_MAX_def)
  then show ?thesis
    using block_products_fit_long [OF h] h by simp
qed

end
